theory Spec2Isabelle
  imports Main "HOL-Library.Sublist"
begin

section \<open>Python values\<close>

text \<open>
  \<open>find_shadow_admins\<close> is dynamically typed: it inspects its two arguments with
  \<open>isinstance\<close> before using them. The values it is fed by \<open>main\<close> come out of
  \<open>json.load\<close>, so the model covers that universe: \<open>None\<close>, booleans, integers,
  strings, lists, and dictionaries with string keys. A dictionary is an association list in
  insertion order, which is the order \<open>.items()\<close> iterates in. Floating-point numbers are
  left out.
\<close>

datatype pyval =
    PNone
  | PBool bool
  | PInt int
  | PStr string
  | PList "pyval list"
  | PDict "(string \<times> pyval) list"

datatype error = AttributeError | TypeError | RecursionError

datatype log_level = ERROR | WARNING | INFO

type_synonym log_record = "log_level \<times> string"

text \<open>
  Python's \<open>==\<close> on these values. It is not structural equality: \<open>bool\<close> is a subclass of
  \<open>int\<close>, so \<open>True == 1\<close> and \<open>False == 0\<close>. Lists compare by length and then element by
  element, dictionaries by size and then key by key.
\<close>

function py_eq :: "pyval \<Rightarrow> pyval \<Rightarrow> bool" where
  "py_eq PNone w = (case w of PNone \<Rightarrow> True | _ \<Rightarrow> False)"
| "py_eq (PBool a) w =
     (case w of PBool b \<Rightarrow> a = b | PInt j \<Rightarrow> (if a then 1 else 0) = j | _ \<Rightarrow> False)"
| "py_eq (PInt i) w =
     (case w of PBool b \<Rightarrow> i = (if b then 1 else 0) | PInt j \<Rightarrow> i = j | _ \<Rightarrow> False)"
| "py_eq (PStr s) w = (case w of PStr t \<Rightarrow> s = t | _ \<Rightarrow> False)"
| "py_eq (PList xs) w =
     (case w of
        PList ys \<Rightarrow> length xs = length ys \<and> list_all (\<lambda>(x, y). py_eq x y) (zip xs ys)
      | _ \<Rightarrow> False)"
| "py_eq (PDict d) w =
     (case w of
        PDict e \<Rightarrow>
          length d = length e \<and>
          list_all (\<lambda>(k, v). case map_of e k of None \<Rightarrow> False | Some v' \<Rightarrow> py_eq v v') d
      | _ \<Rightarrow> False)"
  by pat_completeness auto
termination
proof (relation "measure (\<lambda>(v, w). size v)")
  show "wf (measure (\<lambda>(v, w). size v))" by simp
next
  fix xs ys :: "pyval list" and w x y :: pyval and z :: "pyval \<times> pyval"
  assume "z \<in> set (zip xs ys)" and "(x, y) = z"
  then have "x \<in> set xs" by (auto dest: set_zip_leftD)
  then have "size x < Suc (size_list size xs)"
    by (induction xs) auto
  then show "((x, y), PList xs, w) \<in> measure (\<lambda>(v, w). size v)" by simp
next
  fix d :: "(string \<times> pyval) list" and w v v' :: pyval and z :: "string \<times> pyval" and k :: string
  assume "z \<in> set d" and "(k, v) = z"
  then have "(k, v) \<in> set d" by simp
  then have "size v < Suc (size_list (size_prod (\<lambda>_. 0) size) d)"
    by (induction d) auto
  then show "((v, v'), PDict d, w) \<in> measure (\<lambda>(v, w). size v)" by simp
qed

text \<open>
  The values Python can build: the keys of a dictionary are distinct, at every depth.
\<close>

fun wf_pyval :: "pyval \<Rightarrow> bool" where
  "wf_pyval (PList xs) = list_all wf_pyval xs"
| "wf_pyval (PDict d) = (distinct (map fst d) \<and> list_all (\<lambda>(k, v). wf_pyval v) d)"
| "wf_pyval _ = True"

section \<open>The operations the function applies to its arguments\<close>

definition isinstance_dict :: "pyval \<Rightarrow> bool" where
  "isinstance_dict v = (case v of PDict _ \<Rightarrow> True | _ \<Rightarrow> False)"

definition isinstance_list :: "pyval \<Rightarrow> bool" where
  "isinstance_list v = (case v of PList _ \<Rightarrow> True | _ \<Rightarrow> False)"

text \<open>
  \<open>v.items()\<close>: only a dictionary has the method; on anything else the attribute lookup
  raises \<open>AttributeError\<close>.
\<close>

definition py_items :: "pyval \<Rightarrow> error + (string \<times> pyval) list" where
  "py_items v = (case v of PDict d \<Rightarrow> Inr d | _ \<Rightarrow> Inl AttributeError)"

text \<open>
  \<open>for perm in v\<close>: a list yields its elements, a string its one-character strings, a
  dictionary its keys; \<open>None\<close>, booleans and integers are not iterable and raise
  \<open>TypeError\<close>.
\<close>

definition py_iter :: "pyval \<Rightarrow> error + pyval list" where
  "py_iter v =
     (case v of
        PList xs \<Rightarrow> Inr xs
      | PStr s \<Rightarrow> Inr (map (\<lambda>c. PStr [c]) s)
      | PDict d \<Rightarrow> Inr (map (\<lambda>(k, _). PStr k) d)
      | _ \<Rightarrow> Inl TypeError)"

text \<open>
  \<open>perm in permissions\<close>. On a list it is a linear search with \<open>==\<close>. On a string it is
  a substring test that accepts only a string on the left. On a dictionary it is a key
  lookup, which hashes the left operand, and lists and dictionaries are unhashable. Any
  other right operand raises \<open>TypeError\<close>.
\<close>

definition py_contains :: "pyval \<Rightarrow> pyval \<Rightarrow> error + bool" where
  "py_contains perm permissions =
     (case permissions of
        PList ys \<Rightarrow> Inr (list_ex (py_eq perm) ys)
      | PStr s \<Rightarrow> (case perm of PStr t \<Rightarrow> Inr (sublist t s) | _ \<Rightarrow> Inl TypeError)
      | PDict d \<Rightarrow>
          (case perm of
             PStr k \<Rightarrow> Inr (k \<in> set (map fst d))
           | PList _ \<Rightarrow> Inl TypeError
           | PDict _ \<Rightarrow> Inl TypeError
           | _ \<Rightarrow> Inr False)
      | _ \<Rightarrow> Inl TypeError)"

text \<open>
  \<open>all(perm in permissions for perm in perms)\<close>: \<open>all\<close> consumes the generator and stops
  at the first false element; an exception raised by a membership test propagates.
\<close>

fun py_all_in :: "pyval list \<Rightarrow> pyval \<Rightarrow> error + bool" where
  "py_all_in [] permissions = Inr True"
| "py_all_in (perm # rest) permissions =
     (case py_contains perm permissions of
        Inl e \<Rightarrow> Inl e
      | Inr b \<Rightarrow> if b then py_all_in rest permissions else Inr False)"

section \<open>find_shadow_admins\<close>

text \<open>
  The state the function body updates: the local list \<open>shadow_admins\<close> and the records
  handed to the \<open>logging\<close> module, in the order of the calls.
\<close>

record run =
  shadow_admins :: "string list"
  log :: "log_record list"

definition warning_skipping :: "string \<Rightarrow> log_record" where
  "warning_skipping user =
     (WARNING, ''User '' @ user @ '' has invalid permissions format. Skipping.'')"

definition info_identified :: "string \<Rightarrow> log_record" where
  "info_identified user = (INFO, ''User '' @ user @ '' identified as a shadow admin.'')"

text \<open>The body of \<open>for user, permissions in user_permissions.items()\<close>, one item per step.\<close>

fun for_items :: "(string \<times> pyval) list \<Rightarrow> pyval \<Rightarrow> run \<Rightarrow> error + run" where
  "for_items [] effective_admin_permissions st = Inr st"
| "for_items ((user, permissions) # rest) effective_admin_permissions st =
     (if \<not> isinstance_list permissions then
        for_items rest effective_admin_permissions
          (st\<lparr>log := log st @ [warning_skipping user]\<rparr>)
      else
        case py_iter effective_admin_permissions of
          Inl e \<Rightarrow> Inl e
        | Inr perms \<Rightarrow>
            (case py_all_in perms permissions of
               Inl e \<Rightarrow> Inl e
             | Inr b \<Rightarrow>
                 if b then
                   for_items rest effective_admin_permissions
                     (st\<lparr>shadow_admins := shadow_admins st @ [user],
                         log := log st @ [info_identified user]\<rparr>)
                 else for_items rest effective_admin_permissions st))"

definition find_shadow_admins :: "pyval \<Rightarrow> pyval \<Rightarrow> error + run" where
  "find_shadow_admins user_permissions effective_admin_permissions =
     (if \<not> isinstance_dict user_permissions then
        Inr \<lparr>shadow_admins = [],
             log = [(ERROR, ''Invalid user permissions data. Expected a dictionary.'')]\<rparr>
      else if \<not> isinstance_list effective_admin_permissions then
        Inr \<lparr>shadow_admins = [],
             log = [(ERROR, ''Invalid effective admin permissions data. Expected a list.'')]\<rparr>
      else
        case py_items user_permissions of
          Inl e \<Rightarrow> Inl e
        | Inr items \<Rightarrow>
            for_items items effective_admin_permissions \<lparr>shadow_admins = [], log = []\<rparr>)"


section \<open>The recursion limit\<close>

text \<open>
  Python bounds the depth of nested calls. Every \<open>==\<close> behind \<open>perm in permissions\<close> enters
  one level, and comparing two lists or two dictionaries compares their elements one level
  further down; when no level is left the comparison raises \<open>RecursionError\<close>. The functions
  above describe the program on an unbounded stack. The functions below are the same program
  with \<open>limit\<close>, the number of nested comparisons the interpreter still allows when
  \<open>find_shadow_admins\<close> runs. The two values compared are taken to be distinct objects, as they
  are when the two arguments were loaded from two files.
\<close>

text \<open>
  The loops inside a comparison and inside \<open>in\<close>: the first stops at the first pair that
  differs, the second at the first element that is equal; an exception ends either.
\<close>

fun first_failure :: "('a \<Rightarrow> error + bool) \<Rightarrow> 'a list \<Rightarrow> error + bool" where
  "first_failure f [] = Inr True"
| "first_failure f (x # xs) =
     (case f x of Inl e \<Rightarrow> Inl e | Inr b \<Rightarrow> if b then first_failure f xs else Inr False)"

fun first_success :: "('a \<Rightarrow> error + bool) \<Rightarrow> 'a list \<Rightarrow> error + bool" where
  "first_success f [] = Inr False"
| "first_success f (x # xs) =
     (case f x of Inl e \<Rightarrow> Inl e | Inr b \<Rightarrow> if b then Inr True else first_success f xs)"

text \<open>
  \<open>==\<close> with \<open>n\<close> levels left. Two lists of different lengths, and two dictionaries of
  different sizes, are unequal before any element is compared.
\<close>

fun py_eq_rl :: "nat \<Rightarrow> pyval \<Rightarrow> pyval \<Rightarrow> error + bool" where
  "py_eq_rl 0 v w = Inl RecursionError"
| "py_eq_rl (Suc n) v w =
     (case v of
        PList xs \<Rightarrow>
          (case w of
             PList ys \<Rightarrow>
               if length xs \<noteq> length ys then Inr False
               else first_failure (\<lambda>(x, y). py_eq_rl n x y) (zip xs ys)
           | _ \<Rightarrow> Inr False)
      | PDict d \<Rightarrow>
          (case w of
             PDict e \<Rightarrow>
               if length d \<noteq> length e then Inr False
               else first_failure
                      (\<lambda>(k, x). case map_of e k of None \<Rightarrow> Inr False | Some y \<Rightarrow> py_eq_rl n x y) d
           | _ \<Rightarrow> Inr False)
      | _ \<Rightarrow> Inr (py_eq v w))"

text \<open>The number of levels a comparison of \<open>v\<close> with an equal value enters.\<close>

fun depth :: "pyval \<Rightarrow> nat" where
  "depth (PList xs) = Suc (foldr max (map depth xs) 0)"
| "depth (PDict d) = Suc (foldr max (map (\<lambda>(k, v). depth v) d) 0)"
| "depth _ = 1"

text \<open>\<open>nest k\<close> is the empty list wrapped in \<open>k\<close> one-element lists.\<close>

fun nest :: "nat \<Rightarrow> pyval" where
  "nest 0 = PList []"
| "nest (Suc k) = PList [nest k]"

text \<open>
  \<open>perm in permissions\<close> with the limit: the search of a list compares, the other cases do
  not.
\<close>

definition py_contains_rl :: "nat \<Rightarrow> pyval \<Rightarrow> pyval \<Rightarrow> error + bool" where
  "py_contains_rl limit perm permissions =
     (case permissions of
        PList ys \<Rightarrow> first_success (py_eq_rl limit perm) ys
      | _ \<Rightarrow> py_contains perm permissions)"

fun py_all_in_rl :: "nat \<Rightarrow> pyval list \<Rightarrow> pyval \<Rightarrow> error + bool" where
  "py_all_in_rl limit [] permissions = Inr True"
| "py_all_in_rl limit (perm # rest) permissions =
     (case py_contains_rl limit perm permissions of
        Inl e \<Rightarrow> Inl e
      | Inr b \<Rightarrow> if b then py_all_in_rl limit rest permissions else Inr False)"

fun for_items_rl :: "nat \<Rightarrow> (string \<times> pyval) list \<Rightarrow> pyval \<Rightarrow> run \<Rightarrow> error + run" where
  "for_items_rl limit [] effective_admin_permissions st = Inr st"
| "for_items_rl limit ((user, permissions) # rest) effective_admin_permissions st =
     (if \<not> isinstance_list permissions then
        for_items_rl limit rest effective_admin_permissions
          (st\<lparr>log := log st @ [warning_skipping user]\<rparr>)
      else
        case py_iter effective_admin_permissions of
          Inl e \<Rightarrow> Inl e
        | Inr perms \<Rightarrow>
            (case py_all_in_rl limit perms permissions of
               Inl e \<Rightarrow> Inl e
             | Inr b \<Rightarrow>
                 if b then
                   for_items_rl limit rest effective_admin_permissions
                     (st\<lparr>shadow_admins := shadow_admins st @ [user],
                         log := log st @ [info_identified user]\<rparr>)
                 else for_items_rl limit rest effective_admin_permissions st))"

definition find_shadow_admins_rl :: "nat \<Rightarrow> pyval \<Rightarrow> pyval \<Rightarrow> error + run" where
  "find_shadow_admins_rl limit user_permissions effective_admin_permissions =
     (if \<not> isinstance_dict user_permissions then
        Inr \<lparr>shadow_admins = [],
             log = [(ERROR, ''Invalid user permissions data. Expected a dictionary.'')]\<rparr>
      else if \<not> isinstance_list effective_admin_permissions then
        Inr \<lparr>shadow_admins = [],
             log = [(ERROR, ''Invalid effective admin permissions data. Expected a list.'')]\<rparr>
      else
        case py_items user_permissions of
          Inl e \<Rightarrow> Inl e
        | Inr items \<Rightarrow>
            for_items_rl limit items effective_admin_permissions
              \<lparr>shadow_admins = [], log = []\<rparr>)"

text \<open>
  Every element of \<open>effective_admin_permissions\<close> nests no deeper than the limit. A value
  that is not a list is never compared.
\<close>

definition within_limit :: "nat \<Rightarrow> pyval \<Rightarrow> bool" where
  "within_limit limit effective_admin_permissions =
     (case effective_admin_permissions of
        PList admin \<Rightarrow> list_all (\<lambda>perm. depth perm \<le> limit) admin
      | _ \<Rightarrow> True)"

section \<open>What the loop computes\<close>

text \<open>
  The pure content of \<open>perm in permissions\<close> on a list, and of the \<open>all(...)\<close> test: every
  admin permission is found in the user's list. Membership is Python's, by \<open>==\<close>.
\<close>

definition py_in :: "pyval \<Rightarrow> pyval list \<Rightarrow> bool" where
  "py_in x ys = (\<exists>y\<in>set ys. py_eq x y)"

definition covers :: "pyval list \<Rightarrow> pyval list \<Rightarrow> bool" where
  "covers admin perms = (\<forall>a\<in>set admin. py_in a perms)"

definition qualifies :: "pyval list \<Rightarrow> string \<times> pyval \<Rightarrow> bool" where
  "qualifies admin item = (case snd item of PList perms \<Rightarrow> covers admin perms | _ \<Rightarrow> False)"

definition signals :: "pyval list \<Rightarrow> string \<times> pyval \<Rightarrow> log_record list" where
  "signals admin item =
     (if \<not> isinstance_list (snd item) then [warning_skipping (fst item)]
      else if qualifies admin item then [info_identified (fst item)]
      else [])"


text \<open>The scenario of the specification and of the comment at the end of \<open>main.py\<close>.\<close>

definition example_items :: "(string \<times> pyval) list" where
  "example_items =
     [(''alice'',
       PList [PStr ''/etc/shadow'', PStr ''/etc/sudoers'', PStr ''/var/log/auth.log'']),
      (''bob'', PList [PStr ''/home/bob/file1''])]"

definition example_admin :: "pyval list" where
  "example_admin = [PStr ''/etc/shadow'', PStr ''/etc/sudoers'']"

section \<open>The loop in closed form\<close>

lemma py_all_in_list: "py_all_in admin (PList perms) = Inr (covers admin perms)"
  by (induction admin) (auto simp: py_contains_def covers_def py_in_def list_ex_iff)

lemma for_items_list:
  "for_items items (PList admin) st =
     Inr \<lparr>shadow_admins = shadow_admins st @ map fst (filter (qualifies admin) items),
          log = log st @ concat (map (signals admin) items)\<rparr>"
proof (induction items arbitrary: st)
  case Nil
  show ?case by simp
next
  case (Cons item items)
  obtain user permissions where item: "item = (user, permissions)" by (cases item)
  show ?case
  proof (cases permissions)
    case (PList perms)
    then show ?thesis
      by (simp add: item Cons.IH isinstance_list_def py_iter_def py_all_in_list
          qualifies_def signals_def)
  qed (simp_all add: item Cons.IH isinstance_list_def qualifies_def signals_def)
qed

lemma find_shadow_admins_dict_list:
  "find_shadow_admins (PDict d) (PList admin) =
     Inr \<lparr>shadow_admins = map fst (filter (qualifies admin) d),
          log = concat (map (signals admin) d)\<rparr>"
  by (simp add: find_shadow_admins_def isinstance_dict_def isinstance_list_def py_items_def
      for_items_list)


lemma isinstance_list_cases:
  obtains perms where "v = PList perms" | "\<not> isinstance_list v"
  by (cases v) (simp_all add: isinstance_list_def)


lemma qualifies_empty: "qualifies [] item = isinstance_list (snd item)"
  by (cases "snd item") (simp_all add: qualifies_def covers_def isinstance_list_def)


text \<open>
  A list's \<open>in\<close> accepts an element that is the same object before it tries \<open>==\<close>. On
  these values \<open>==\<close> is reflexive, so that shortcut never changes the answer and
  \<open>py_contains\<close> needs no notion of identity.
\<close>

lemma py_eq_refl: "wf_pyval v \<Longrightarrow> py_eq v v"
proof (induction v)
  case (PList xs)
  then have "\<forall>x\<in>set xs. py_eq x x"
    by (simp add: list_all_iff)
  then show ?case
    by (simp add: zip_same_conv_map list_all_iff)
next
  case (PDict d)
  have "case map_of d k of None \<Rightarrow> False | Some v' \<Rightarrow> py_eq v v'" if "(k, v) \<in> set d" for k v
  proof -
    from PDict.prems that have "map_of d k = Some v" by simp
    moreover from PDict.prems that have "wf_pyval v" by (auto simp: list_all_iff)
    with PDict.IH [of "(k, v)" v] that have "py_eq v v" by simp
    ultimately show ?thesis by simp
  qed
  then show ?case
    by (auto simp: list_all_iff)
qed simp_all

text \<open>
  On strings \<open>==\<close> is equality, so for an admin profile of strings (the documented format)
  the test is the inclusion of one set of values in the other.
\<close>

lemma py_eq_PStr: "py_eq (PStr s) w \<longleftrightarrow> w = PStr s"
  by (cases w) auto

lemma covers_strings:
  assumes "\<forall>a\<in>set admin. \<exists>s. a = PStr s"
  shows "covers admin perms \<longleftrightarrow> set admin \<subseteq> set perms"
proof -
  have "py_in a perms \<longleftrightarrow> a \<in> set perms" if "a \<in> set admin" for a
  proof -
    from that assms obtain s where "a = PStr s" by blast
    then show ?thesis by (simp add: py_in_def py_eq_PStr del: py_eq.simps)
  qed
  then show ?thesis by (auto simp: covers_def)
qed


section \<open>The program with and without the recursion limit\<close>

text \<open>On an unbounded stack the call returns, whatever its arguments.\<close>

lemma find_shadow_admins_returns: "\<exists>r. find_shadow_admins up eap = Inr r"
proof (cases "isinstance_dict up \<and> isinstance_list eap")
  case True
  then obtain d admin where "up = PDict d" "eap = PList admin"
    by (auto simp: isinstance_dict_def isinstance_list_def split: pyval.splits)
  then show ?thesis by (simp add: find_shadow_admins_dict_list)
next
  case False
  then show ?thesis by (auto simp: find_shadow_admins_def)
qed

text \<open>
  A comparison that has enough levels gives the answer of \<open>py_eq\<close>, and so does the whole
  function when the admin profile is within the limit.
\<close>

lemma first_failure_Inr:
  "(\<And>x. x \<in> set xs \<Longrightarrow> f x = Inr (g x)) \<Longrightarrow> first_failure f xs = Inr (list_all g xs)"
  by (induction xs) simp_all

lemma first_success_Inr:
  "(\<And>x. x \<in> set xs \<Longrightarrow> f x = Inr (g x)) \<Longrightarrow> first_success f xs = Inr (list_ex g xs)"
  by (induction xs) simp_all

lemma le_foldr_max: "x \<in> set xs \<Longrightarrow> f x \<le> foldr max (map f xs) (0::nat)"
  by (induction xs) (auto simp: max.coboundedI2)

lemma depth_PList: "x \<in> set xs \<Longrightarrow> depth x < depth (PList xs)"
  using le_foldr_max [of x xs depth] by simp

lemma depth_PDict: "(k, v) \<in> set d \<Longrightarrow> depth v < depth (PDict d)"
  using le_foldr_max [of "(k, v)" d "\<lambda>(k, v). depth v"] by simp

lemma py_eq_rl_fits: "depth v \<le> n \<Longrightarrow> py_eq_rl n v w = Inr (py_eq v w)"
proof (induction n arbitrary: v w)
  case 0
  then show ?case by (cases v) simp_all
next
  case (Suc n)
  show ?case
  proof (cases v)
    case (PList xs)
    show ?thesis
    proof (cases w)
      case w: (PList ys)
      have "py_eq_rl n x y = Inr (py_eq x y)" if "(x, y) \<in> set (zip xs ys)" for x y
      proof -
        from that have "x \<in> set xs" by (rule set_zip_leftD)
        then have "depth x \<le> n" using depth_PList [of x xs] Suc.prems PList by simp
        then show ?thesis by (rule Suc.IH)
      qed
      then have "first_failure (\<lambda>(x, y). py_eq_rl n x y) (zip xs ys) =
          Inr (list_all (\<lambda>(x, y). py_eq x y) (zip xs ys))"
        by (intro first_failure_Inr) auto
      then show ?thesis by (simp add: PList w)
    qed (simp_all add: PList)
  next
    case (PDict d)
    show ?thesis
    proof (cases w)
      case w: (PDict e)
      have "(case map_of e k of None \<Rightarrow> Inr False | Some y \<Rightarrow> py_eq_rl n x y) =
          Inr (case map_of e k of None \<Rightarrow> False | Some y \<Rightarrow> py_eq x y)"
        if "(k, x) \<in> set d" for k x
      proof -
        from that have "depth x \<le> n" using depth_PDict [of k x d] Suc.prems PDict by simp
        then have "py_eq_rl n x y = Inr (py_eq x y)" for y by (rule Suc.IH)
        then show ?thesis by (simp split: option.splits)
      qed
      then have "first_failure
          (\<lambda>(k, x). case map_of e k of None \<Rightarrow> Inr False | Some y \<Rightarrow> py_eq_rl n x y) d =
          Inr (list_all (\<lambda>(k, x). case map_of e k of None \<Rightarrow> False | Some y \<Rightarrow> py_eq x y) d)"
        by (intro first_failure_Inr) auto
      then show ?thesis by (simp add: PDict w)
    qed (simp_all add: PDict)
  qed simp_all
qed

lemma py_contains_rl_fits:
  "depth perm \<le> limit \<Longrightarrow> py_contains_rl limit perm permissions = py_contains perm permissions"
  by (cases permissions)
    (simp_all add: py_contains_rl_def py_contains_def first_success_Inr py_eq_rl_fits)

lemma py_all_in_rl_fits:
  "list_all (\<lambda>perm. depth perm \<le> limit) admin \<Longrightarrow>
   py_all_in_rl limit admin permissions = py_all_in admin permissions"
  by (induction admin) (auto simp: py_contains_rl_fits split: sum.splits)

lemma for_items_rl_fits:
  "list_all (\<lambda>perm. depth perm \<le> limit) admin \<Longrightarrow>
   for_items_rl limit items (PList admin) st = for_items items (PList admin) st"
proof (induction items arbitrary: st)
  case Nil
  show ?case by simp
next
  case (Cons item items)
  obtain user permissions where item: "item = (user, permissions)" by (cases item)
  from Cons show ?case
    by (simp add: item py_iter_def py_all_in_rl_fits split: sum.splits)
qed

lemma find_shadow_admins_rl_fits:
  "within_limit limit eap \<Longrightarrow> find_shadow_admins_rl limit up eap = find_shadow_admins up eap"
proof (cases eap rule: isinstance_list_cases)
  case (1 admin)
  assume "within_limit limit eap"
  with 1 have "list_all (\<lambda>perm. depth perm \<le> limit) admin"
    by (simp add: within_limit_def)
  then show ?thesis
    by (simp add: 1 find_shadow_admins_rl_def find_shadow_admins_def for_items_rl_fits
        split: sum.splits)
next
  case 2
  then show ?thesis
    by (simp add: find_shadow_admins_rl_def find_shadow_admins_def)
qed

text \<open>With the limit, the only exception is \<open>RecursionError\<close>.\<close>

lemma first_failure_error:
  "(\<And>x e. x \<in> set xs \<Longrightarrow> f x = Inl e \<Longrightarrow> e = RecursionError) \<Longrightarrow>
   first_failure f xs = Inl e \<Longrightarrow> e = RecursionError"
  by (induction xs) (auto split: sum.splits if_splits)

lemma first_success_error:
  "(\<And>x e. x \<in> set xs \<Longrightarrow> f x = Inl e \<Longrightarrow> e = RecursionError) \<Longrightarrow>
   first_success f xs = Inl e \<Longrightarrow> e = RecursionError"
  by (induction xs) (auto split: sum.splits if_splits)

lemma py_eq_rl_error: "py_eq_rl n v w = Inl e \<Longrightarrow> e = RecursionError"
proof (induction n arbitrary: v w e)
  case 0
  then show ?case by simp
next
  case (Suc n)
  have step: "\<And>x y e. py_eq_rl n x y = Inl e \<Longrightarrow> e = RecursionError"
    by (rule Suc.IH)
  show ?case
  proof (cases v)
    case (PList xs)
    with Suc.prems show ?thesis
      by (cases w) (auto split: if_splits elim!: first_failure_error [rotated] dest: step)
  next
    case (PDict d)
    with Suc.prems show ?thesis
      by (cases w)
        (auto split: if_splits option.splits elim!: first_failure_error [rotated] dest: step)
  qed (use Suc.prems in simp_all)
qed

lemma py_contains_rl_error:
  "isinstance_list permissions \<Longrightarrow> py_contains_rl limit perm permissions = Inl e \<Longrightarrow>
   e = RecursionError"
  by (cases permissions)
    (auto simp: py_contains_rl_def isinstance_list_def
      elim!: first_success_error [rotated] dest: py_eq_rl_error)

lemma py_all_in_rl_error:
  "isinstance_list permissions \<Longrightarrow> py_all_in_rl limit admin permissions = Inl e \<Longrightarrow>
   e = RecursionError"
  by (induction admin) (auto split: sum.splits if_splits dest: py_contains_rl_error)

lemma for_items_rl_error:
  "isinstance_list eap \<Longrightarrow> for_items_rl limit items eap st = Inl e \<Longrightarrow> e = RecursionError"
proof (induction items arbitrary: st)
  case Nil
  then show ?case by simp
next
  case (Cons item items)
  obtain user permissions where item: "item = (user, permissions)" by (cases item)
  from Cons.prems(1) obtain admin where eap: "eap = PList admin"
    by (cases eap) (simp_all add: isinstance_list_def)
  show ?case
  proof (cases "isinstance_list permissions")
    case False
    with Cons.prems(2) Cons.IH [OF Cons.prems(1)] show ?thesis by (simp add: item)
  next
    case True
    show ?thesis
    proof (cases "py_all_in_rl limit admin permissions")
      case (Inl e')
      with Cons.prems(2) True have "e = e'" by (simp add: item eap py_iter_def)
      with Inl py_all_in_rl_error [OF True] show ?thesis by blast
    next
      case (Inr b)
      with Cons.prems(2) True Cons.IH [OF Cons.prems(1)] show ?thesis
        by (simp add: item eap py_iter_def split: if_splits)
    qed
  qed
qed

text \<open>Two equal values nested more deeply than the limit cannot be compared.\<close>

lemma py_eq_rl_nest: "n \<le> k \<Longrightarrow> py_eq_rl n (nest k) (nest k) = Inl RecursionError"
proof (induction n arbitrary: k)
  case 0
  show ?case by simp
next
  case (Suc n)
  then obtain k' where "k = Suc k'" "n \<le> k'" by (cases k) simp_all
  with Suc.IH [of k'] show ?case by simp
qed

section \<open>Properties of find_shadow_admins\<close>



text \<open>
  C2. For every dictionary \<open>user_permissions\<close>, with the empty list as
  \<open>effective_admin_permissions\<close> the call returns exactly the users whose value is a list,
  in the order of the dictionary.
\<close>

theorem empty_admin_returns_every_list_user:
  "\<exists>r. find_shadow_admins (PDict d) (PList []) = Inr r \<and>
     shadow_admins r = map fst (filter (\<lambda>(user, permissions). isinstance_list permissions) d)"
proof -
  have "filter (qualifies []) d = filter (\<lambda>(user, permissions). isinstance_list permissions) d"
    by (rule filter_cong) (auto simp: qualifies_empty)
  then show ?thesis
    by (simp add: find_shadow_admins_dict_list)
qed

theorem empty_admin_returns_every_list_user_witness:
  "\<exists>r. find_shadow_admins
         (PDict [(''carol'', PStr ''not-a-list''), (''dave'', PList []), (''erin'', PList [PInt 7])])
         (PList []) = Inr r \<and>
     shadow_admins r = [''dave'', ''erin'']"
  using empty_admin_returns_every_list_user
    [of "[(''carol'', PStr ''not-a-list''), (''dave'', PList []), (''erin'', PList [PInt 7])]"]
  by (simp add: isinstance_list_def)



text \<open>
  C4. If \<open>user_permissions\<close> is not a dictionary, or \<open>effective_admin_permissions\<close> is not a
  list, the call does not raise: it returns the empty list, having logged exactly one record,
  at level ERROR. A value that is not a sequence is in particular not a list.
\<close>

theorem malformed_top_level_returns_empty:
  "\<not> isinstance_dict user_permissions \<or> \<not> isinstance_list effective_admin_permissions \<Longrightarrow>
   \<exists>msg. find_shadow_admins user_permissions effective_admin_permissions =
     Inr \<lparr>shadow_admins = [], log = [(ERROR, msg)]\<rparr>"
  by (auto simp: find_shadow_admins_def)

theorem malformed_top_level_returns_empty_witness:
  "(\<exists>msg. find_shadow_admins (PList [PStr ''alice'']) (PList example_admin) =
      Inr \<lparr>shadow_admins = [], log = [(ERROR, msg)]\<rparr>) \<and>
   (\<exists>msg. find_shadow_admins (PDict example_items) (PInt 5) =
      Inr \<lparr>shadow_admins = [], log = [(ERROR, msg)]\<rparr>)"
  using malformed_top_level_returns_empty [of "PList [PStr ''alice'']" "PList example_admin"]
    malformed_top_level_returns_empty [of "PDict example_items" "PInt 5"]
  by (simp add: isinstance_dict_def isinstance_list_def)



text \<open>
  C6. The call raises no exception on account of the shape of its arguments: for every
  pair of values, the only exception it can raise is \<open>RecursionError\<close>, and it returns a
  list of usernames (with the records it logged) whenever every element of
  \<open>effective_admin_permissions\<close> nests no deeper than the recursion limit allows.
\<close>

theorem returns_within_recursion_limit:
  "(within_limit limit effective_admin_permissions \<longrightarrow>
      (\<exists>r. find_shadow_admins_rl limit user_permissions effective_admin_permissions = Inr r)) \<and>
   (\<forall>e. find_shadow_admins_rl limit user_permissions effective_admin_permissions = Inl e \<longrightarrow>
      e = RecursionError)"
proof (intro conjI impI allI)
  assume "within_limit limit effective_admin_permissions"
  then show "\<exists>r. find_shadow_admins_rl limit user_permissions effective_admin_permissions = Inr r"
    using find_shadow_admins_returns [of user_permissions effective_admin_permissions]
    by (simp add: find_shadow_admins_rl_fits)
next
  fix e
  assume raised: "find_shadow_admins_rl limit user_permissions effective_admin_permissions = Inl e"
  then have "isinstance_dict user_permissions" "isinstance_list effective_admin_permissions"
    by (auto simp: find_shadow_admins_rl_def split: if_splits)
  moreover from this obtain d where "user_permissions = PDict d"
    by (cases user_permissions) (simp_all add: isinstance_dict_def)
  ultimately have
    "for_items_rl limit d effective_admin_permissions \<lparr>shadow_admins = [], log = []\<rparr> = Inl e"
    using raised by (simp add: find_shadow_admins_rl_def py_items_def)
  with \<open>isinstance_list effective_admin_permissions\<close> show "e = RecursionError"
    by (rule for_items_rl_error)
qed

theorem returns_within_recursion_limit_witness:
  "within_limit 3 (PList [PStr ''/etc/shadow'', PList [PList [PInt 1]]]) \<and>
   (\<exists>r. find_shadow_admins_rl 3
      (PDict [(''alice'', PList [PList [PList [PBool True]], PStr ''/etc/shadow'']),
              (''carol'', PStr ''not-a-list'')])
      (PList [PStr ''/etc/shadow'', PList [PList [PInt 1]]]) = Inr r)"
proof -
  have h: "within_limit 3 (PList [PStr ''/etc/shadow'', PList [PList [PInt 1]]])"
    by (simp add: within_limit_def)
  with returns_within_recursion_limit
    [of 3 "PList [PStr ''/etc/shadow'', PList [PList [PInt 1]]]"
        "PDict [(''alice'', PList [PList [PList [PBool True]], PStr ''/etc/shadow'']),
                (''carol'', PStr ''not-a-list'')]"]
  show ?thesis by blast
qed

text \<open>
  For values of any shape the call can raise: with 1000 levels left, an admin permission
  and a user's permission that are both the empty list wrapped in 2000 lists make
  \<open>perm in permissions\<close> raise \<open>RecursionError\<close>, which nothing in the function catches.
\<close>

theorem deep_nesting_raises:
  "find_shadow_admins_rl 1000 (PDict [(''alice'', PList [nest 2000])]) (PList [nest 2000]) =
     Inl RecursionError"
proof -
  have "py_eq_rl 1000 (nest 2000) (nest 2000) = Inl RecursionError"
    by (rule py_eq_rl_nest) simp
  then show ?thesis
    by (simp add: find_shadow_admins_rl_def isinstance_dict_def isinstance_list_def py_items_def
        py_iter_def py_contains_rl_def)
qed



text \<open>
  C8. On \<open>{"alice": ["/etc/shadow", "/etc/sudoers", "/var/log/auth.log"],
  "bob": ["/home/bob/file1"]}\<close> the call with \<open>["/etc/shadow", "/etc/sudoers"]\<close> returns
  \<open>["alice"]\<close>, and the call with \<open>[]\<close> returns \<open>["alice", "bob"]\<close>.
\<close>

theorem concrete_scenarios:
  "find_shadow_admins (PDict example_items) (PList example_admin) =
     Inr \<lparr>shadow_admins = [''alice''], log = [info_identified ''alice'']\<rparr> \<and>
   find_shadow_admins (PDict example_items) (PList []) =
     Inr \<lparr>shadow_admins = [''alice'', ''bob''],
          log = [info_identified ''alice'', info_identified ''bob'']\<rparr>"
  by (simp add: find_shadow_admins_def isinstance_dict_def isinstance_list_def py_items_def
      py_iter_def py_contains_def example_items_def example_admin_def)





end
